theory Spec2Isabelle
  imports Main "HOL-Library.Word" "HOL-Library.Sublist"
begin

unbundle bit_operations_syntax

section \<open>Text\<close>

text \<open>
  The script \<^verbatim>\<open>add_files_to_xcode.py\<close> treats the project manifest as one Python
  string and edits it with regular-expression searches and slicing.  A text is a list of
  characters; the searches only ever compare characters for equality (and test them for
  membership in \<^verbatim>\<open>[A-F0-9]\<close>), so nothing depends on how a character is encoded.
\<close>

definition TAB :: string where
  "TAB = [CHR 0x09]"

definition NL :: string where
  "NL = [CHR 0x0A]"

definition DQ :: string where
  "DQ = [CHR 0x22]"

text \<open>Python's \<^verbatim>\<open>s[i:j]\<close> for \<open>0 \<le> i\<close>, \<open>0 \<le> j\<close>: out-of-range bounds are clamped.\<close>

definition slice :: "string \<Rightarrow> nat \<Rightarrow> nat \<Rightarrow> string" where
  "slice s i j = take (j - i) (drop i s)"

text \<open>\<^verbatim>\<open>str(n)\<close> for a non-negative integer, as the f-strings render \<^verbatim>\<open>len(...)\<close>.\<close>

fun str_nat :: "nat \<Rightarrow> string" where
  "str_nat n =
     (if n < 10 then [''0123456789'' ! n]
      else str_nat (n div 10) @ [''0123456789'' ! (n mod 10)])"

declare str_nat.simps [simp del]

section \<open>The regular expressions of the script\<close>

text \<open>
  Every pattern of the script is a sequence of: literal text, \<^verbatim>\<open>.*?\<close> and \<^verbatim>\<open>.*\<close>
  (always under \<^verbatim>\<open>re.DOTALL\<close>, so the dot matches every character), a single dot
  (which a group identifier may bring into its pattern), the counted class
  \<^verbatim>\<open>[A-F0-9]{n}\<close>, and the parentheses of capturing groups.  \<open>rmatch\<close> is the
  backtracking matcher of Python's \<^verbatim>\<open>re\<close> on such a sequence, anchored at the head of
  the text: a lazy star tries the shortest extension first, a greedy star the longest, and
  each gives way when the rest of the pattern fails.  The result lists, item by item, the
  text each item consumed.
\<close>

datatype item =
    Lit string
  | AnyLazy
  | AnyGreedy
  | AnyChar
  | UpperHex nat
  | Open nat
  | Close nat

type_synonym regex = "item list"

definition upper_hex :: "char \<Rightarrow> bool" where
  "upper_hex c = (c \<in> set ''ABCDEF0123456789'')"

fun consume :: "char \<Rightarrow> string list \<Rightarrow> string list" where
  "consume c (x # xs) = (c # x) # xs"
| "consume c [] = []"

text \<open>A literal run of the pattern, matched character by character; the text after it.\<close>

fun literal :: "string \<Rightarrow> string \<Rightarrow> string option" where
  "literal [] s = Some s"
| "literal (a # l) [] = None"
| "literal (a # l) (c # cs) = (if c = a then literal l cs else None)"

text \<open>Exactly \<open>n\<close> characters of the class \<^verbatim>\<open>[A-F0-9]\<close>, and the text after them.\<close>

fun upper_hex_run :: "nat \<Rightarrow> string \<Rightarrow> (string \<times> string) option" where
  "upper_hex_run 0 s = Some ([], s)"
| "upper_hex_run (Suc n) [] = None"
| "upper_hex_run (Suc n) (c # cs) =
     (if upper_hex c then map_option (\<lambda>(x, rest). (c # x, rest)) (upper_hex_run n cs)
      else None)"

fun rmatch :: "regex \<Rightarrow> string \<Rightarrow> string list option" where
  "rmatch [] s = Some []"
| "rmatch (Lit l # ps) s =
     (case literal l s of
        Some rest \<Rightarrow> map_option ((#) l) (rmatch ps rest)
      | None \<Rightarrow> None)"
| "rmatch (UpperHex n # ps) s =
     (case upper_hex_run n s of
        Some (x, rest) \<Rightarrow> map_option ((#) x) (rmatch ps rest)
      | None \<Rightarrow> None)"
| "rmatch (Open k # ps) s = map_option ((#) []) (rmatch ps s)"
| "rmatch (Close k # ps) s = map_option ((#) []) (rmatch ps s)"
| "rmatch (AnyLazy # ps) s =
     (case rmatch ps s of
        Some r \<Rightarrow> Some ([] # r)
      | None \<Rightarrow>
          (case s of
             [] \<Rightarrow> None
           | c # cs \<Rightarrow> map_option (consume c) (rmatch (AnyLazy # ps) cs)))"
| "rmatch (AnyGreedy # ps) [] = map_option ((#) []) (rmatch ps [])"
| "rmatch (AnyGreedy # ps) (c # cs) =
     (case rmatch (AnyGreedy # ps) cs of
        Some r \<Rightarrow> Some (consume c r)
      | None \<Rightarrow> map_option ((#) []) (rmatch ps (c # cs)))"
| "rmatch (AnyChar # ps) [] = None"
| "rmatch (AnyChar # ps) (c # cs) = map_option ((#) [c]) (rmatch ps cs)"

text \<open>
  \<^verbatim>\<open>re.search\<close>: the first start position, from the left, at which the pattern matches.
  The match object keeps the searched string, the pattern, the start position and what
  each item consumed; \<^verbatim>\<open>m.start(k)\<close>, \<^verbatim>\<open>m.end(k)\<close> and \<^verbatim>\<open>m.group(k)\<close> are read
  off it.
\<close>

record rmatch_obj =
  m_string :: string
  m_re :: regex
  m_pos :: nat
  m_parts :: "string list"

fun search_from :: "regex \<Rightarrow> nat \<Rightarrow> string \<Rightarrow> (nat \<times> string list) option" where
  "search_from ps n s =
     (case rmatch ps s of
        Some r \<Rightarrow> Some (n, r)
      | None \<Rightarrow> (case s of [] \<Rightarrow> None | c # cs \<Rightarrow> search_from ps (Suc n) cs))"

declare search_from.simps [simp del]

definition re_search :: "regex \<Rightarrow> string \<Rightarrow> rmatch_obj option" where
  "re_search ps s =
     map_option (\<lambda>(n, r). \<lparr>m_string = s, m_re = ps, m_pos = n, m_parts = r\<rparr>)
       (search_from ps 0 s)"

fun offset_of :: "item \<Rightarrow> regex \<Rightarrow> string list \<Rightarrow> nat" where
  "offset_of a (p # ps) (x # xs) = (if p = a then 0 else length x + offset_of a ps xs)"
| "offset_of a _ _ = 0"

definition m_start :: "rmatch_obj \<Rightarrow> nat \<Rightarrow> nat" where
  "m_start m k = m_pos m + offset_of (Open k) (m_re m) (m_parts m)"

definition m_end :: "rmatch_obj \<Rightarrow> nat \<Rightarrow> nat" where
  "m_end m k = m_pos m + offset_of (Close k) (m_re m) (m_parts m)"

definition m_group :: "rmatch_obj \<Rightarrow> nat \<Rightarrow> string" where
  "m_group m k = slice (m_string m) (m_start m k) (m_end m k)"

text \<open>The end of the whole match, \<^verbatim>\<open>m.end()\<close>.\<close>

definition m_end0 :: "rmatch_obj \<Rightarrow> nat" where
  "m_end0 m = m_pos m + length (concat (m_parts m))"

text \<open>
  The patterns, in the order of the source.  \<open>group_pattern\<close> splices the group
  identifier into the pattern unescaped.  A character of the identifier that is not
  special in a Python regular expression stands for itself and a dot stands for any
  character; an identifier with any other special character (\<open>regex_operator\<close>) gives a
  pattern outside the sequences described above, whose text is \<open>group_pattern_source\<close>.
\<close>

definition BS :: string where
  "BS = [CHR 0x5C]"

definition regex_operator :: "char \<Rightarrow> bool" where
  "regex_operator c = (c \<in> set (''^$*+?{}[]|()'' @ BS))"

definition main_sources_pattern :: regex where
  "main_sources_pattern =
     [Lit ''/* PetSafety */'', AnyLazy, Lit ''isa = PBXGroup;'', AnyLazy,
      Lit ''children = ('', Open 1, AnyLazy, Close 1, Lit '');'']"

definition id_items :: "string \<Rightarrow> regex" where
  "id_items group_uuid = map (\<lambda>c. if c = CHR ''.'' then AnyChar else Lit [c]) group_uuid"

definition group_pattern :: "string \<Rightarrow> regex" where
  "group_pattern group_uuid =
     [Open 1] @ id_items group_uuid
     @ [Lit '' /* '', AnyGreedy, Lit '' */ = {'', AnyLazy,
        Lit ''children = ('', Close 1,
        Open 2, AnyLazy, Close 2,
        Open 3, Lit '');'', AnyLazy, Lit ''isa = PBXGroup;'', Close 3]"

definition group_pattern_source :: "string \<Rightarrow> string" where
  "group_pattern_source group_uuid =
     ''('' @ group_uuid @ '' /'' @ BS @ ''* .* '' @ BS @ ''*/ = {.*?children = '' @ BS
       @ ''()(.*?)('' @ BS @ '');.*?isa = PBXGroup;)''"

definition file_ref_section_pattern :: regex where
  "file_ref_section_pattern = [Lit ''/* Begin PBXFileReference section */'']"

definition build_file_section_pattern :: regex where
  "build_file_section_pattern = [Lit ''/* Begin PBXBuildFile section */'']"

definition sources_phase_pattern :: regex where
  "sources_phase_pattern =
     [Open 1, Lit ''/* Sources */ = {'', AnyLazy, Lit ''files = ('', Close 1,
      Open 2, AnyLazy, Close 2,
      Open 3, Lit '');'', AnyLazy, Lit ''isa = PBXSourcesBuildPhase;'', Close 3]"

text \<open>\<^verbatim>\<open>re.escape\<close> makes the group name literal, whatever its characters.\<close>

definition find_pattern :: "string \<Rightarrow> regex" where
  "find_pattern group_name =
     [Open 1, UpperHex 24, Close 1, Lit ('' /* '' @ group_name @ '' */'')]"

section \<open>Identifiers\<close>

text \<open>
  \<^verbatim>\<open>uuid.uuid4().hex[:24].upper()\<close>.  \<^verbatim>\<open>uuid4\<close> draws 16 random bytes, reads them
  as a 128-bit number and overwrites the variant and version bits; \<^verbatim>\<open>hex\<close> is
  \<^verbatim>\<open>'%032x'\<close> of that number.  The random bytes are the argument: \<open>generate_uuid r\<close> is
  the value of the call that drew \<open>r\<close>.
\<close>

definition uuid4 :: "128 word \<Rightarrow> 128 word" where
  "uuid4 r =
     (((r AND NOT (push_bit 48 0xc000)) OR push_bit 48 0x8000)
        AND NOT (push_bit 64 0xf000)) OR push_bit 76 4"

fun hex_digits :: "nat \<Rightarrow> string" where
  "hex_digits n =
     (if n < 16 then [''0123456789abcdef'' ! n]
      else hex_digits (n div 16) @ [''0123456789abcdef'' ! (n mod 16)])"

declare hex_digits.simps [simp del]

definition format_032x :: "nat \<Rightarrow> string" where
  "format_032x n = replicate (32 - length (hex_digits n)) CHR ''0'' @ hex_digits n"

definition uuid_hex :: "128 word \<Rightarrow> string" where
  "uuid_hex u = format_032x (unat u)"

definition upper_char :: "char \<Rightarrow> char" where
  "upper_char c =
     (case map_of (zip ''abcdefghijklmnopqrstuvwxyz'' ''ABCDEFGHIJKLMNOPQRSTUVWXYZ'') c of
        Some u \<Rightarrow> u
      | None \<Rightarrow> c)"

definition upper :: "string \<Rightarrow> string" where
  "upper s = map upper_char s"

definition generate_uuid :: "128 word \<Rightarrow> string" where
  "generate_uuid r = upper (take 24 (uuid_hex (uuid4 r)))"

section \<open>The world of the script\<close>

text \<open>
  The files by path, the writes performed (in order), the lines printed (one entry per
  \<^verbatim>\<open>print\<close> call) and the number of random draws so far.  The \<open>i\<close>-th draw of the run
  yields \<open>rnd i\<close>.  An exception that leaves the script is a value of type \<open>error\<close>.
\<close>

datatype error = FileNotFoundError | ReError | TypeError

text \<open>
  For a group pattern outside the modelled sequences the answer of Python's \<^verbatim>\<open>re\<close> is
  a parameter of the model, of type \<open>re_library\<close>: from the text of the pattern and the
  text searched, either the exception raised (\<^verbatim>\<open>re.error\<close> when the pattern does not
  compile, \<^verbatim>\<open>TypeError\<close> when the match leaves group 2 unset, so that
  \<^verbatim>\<open>group(2)\<close> is \<^verbatim>\<open>None\<close>), or no match, or the \<^verbatim>\<open>start(2)\<close> and \<^verbatim>\<open>end(2)\<close> of the
  match.
\<close>

type_synonym re_library = "string \<Rightarrow> string \<Rightarrow> error + (nat \<times> nat) option"

record world =
  files :: "string \<rightharpoonup> string"
  writes :: "(string \<times> string) list"
  stdout :: "string list"
  urandom_calls :: nat

definition print :: "string \<Rightarrow> world \<Rightarrow> world" where
  "print line w = w\<lparr>stdout := stdout w @ [line]\<rparr>"

definition write_file :: "string \<Rightarrow> string \<Rightarrow> world \<Rightarrow> world" where
  "write_file path text w =
     w\<lparr>files := (files w)(path \<mapsto> text), writes := writes w @ [(path, text)]\<rparr>"

definition CHECK :: string where
  "CHECK = [CHR 0xE2, CHR 0x9C, CHR 0x93]"

definition CROSS :: string where
  "CROSS = [CHR 0xE2, CHR 0x9C, CHR 0x97]"

definition CHECK_BOX :: string where
  "CHECK_BOX = [CHR 0xE2, CHR 0x9C, CHR 0x85]"

definition CROSS_MARK :: string where
  "CROSS_MARK = [CHR 0xE2, CHR 0x9D, CHR 0x8C]"

section \<open>The manifest editor\<close>

text \<open>The three fragments built per file, and the entry of the build phase.\<close>

definition file_ref_text :: "string \<Rightarrow> string \<Rightarrow> string" where
  "file_ref_text file_ref_uuid filename =
     TAB @ TAB @ file_ref_uuid @ '' /* '' @ filename
       @ '' */ = {isa = PBXFileReference; lastKnownFileType = sourcecode.swift; path = ''
       @ filename @ ''; sourceTree = '' @ DQ @ ''<group>'' @ DQ @ ''; };'' @ NL"

definition build_file_text :: "string \<Rightarrow> string \<Rightarrow> string \<Rightarrow> string" where
  "build_file_text build_file_uuid file_ref_uuid filename =
     TAB @ TAB @ build_file_uuid @ '' /* '' @ filename
       @ '' in Sources */ = {isa = PBXBuildFile; fileRef = '' @ file_ref_uuid
       @ '' /* '' @ filename @ '' */; };'' @ NL"

definition new_child_text :: "string \<Rightarrow> string \<Rightarrow> string" where
  "new_child_text file_ref_uuid filename =
     NL @ TAB @ TAB @ TAB @ TAB @ file_ref_uuid @ '' /* '' @ filename @ '' */,''"

definition sources_entry_text :: "string \<Rightarrow> string \<Rightarrow> string" where
  "sources_entry_text uuid name =
     NL @ TAB @ TAB @ TAB @ TAB @ uuid @ '' /* '' @ name @ '' in Sources */,''"

text \<open>The local variables of \<^verbatim>\<open>add_files_to_xcode_project\<close>.\<close>

record locals =
  content :: string
  file_references :: "(string \<times> string \<times> string) list"
  build_file_entries :: "(string \<times> string \<times> string) list"
  sources_build_phase_entries :: "(string \<times> string) list"

text \<open>
  The search of line 53, and the \<^verbatim>\<open>start(2)\<close> and \<^verbatim>\<open>end(2)\<close> of its match;
  \<^verbatim>\<open>group(2)\<close> is the slice of the searched text between the two.
\<close>

definition group_search :: "re_library \<Rightarrow> string \<Rightarrow> string \<Rightarrow> error + (nat \<times> nat) option" where
  "group_search re_lib group_uuid text =
     (if list_ex regex_operator group_uuid
      then re_lib (group_pattern_source group_uuid) text
      else Inr (map_option (\<lambda>group_match. (m_start group_match 2, m_end group_match 2))
                  (re_search (group_pattern group_uuid) text)))"

text \<open>One iteration of the loop over \<^verbatim>\<open>files_to_add\<close> (lines 36 to 62).\<close>

definition add_file ::
  "(nat \<Rightarrow> 128 word) \<Rightarrow> re_library \<Rightarrow> locals \<times> world \<Rightarrow> string \<times> string \<times> string
     \<Rightarrow> error + locals \<times> world" where
  "add_file rnd re_lib st f =
     (case st of (l, w) \<Rightarrow>
      case f of (filename, filepath, group_uuid) \<Rightarrow>
        let file_ref_uuid = generate_uuid (rnd (urandom_calls w));
            build_file_uuid = generate_uuid (rnd (urandom_calls w + 1));
            w1 = w\<lparr>urandom_calls := urandom_calls w + 2\<rparr>;
            file_ref = file_ref_text file_ref_uuid filename;
            build_file = build_file_text build_file_uuid file_ref_uuid filename;
            l1 = l\<lparr>file_references := file_references l @ [(file_ref_uuid, filename, file_ref)],
                   build_file_entries :=
                     build_file_entries l @ [(build_file_uuid, filename, build_file)],
                   sources_build_phase_entries :=
                     sources_build_phase_entries l @ [(build_file_uuid, filename)]\<rparr>
        in (case group_search re_lib group_uuid (content l1) of
              Inl e \<Rightarrow> Inl e
            | Inr (Some (start2, end2)) \<Rightarrow>
                let existing_children = slice (content l1) start2 end2;
                    new_child = new_child_text file_ref_uuid filename;
                    updated_children = existing_children @ new_child
                in Inr (l1\<lparr>content :=
                            take start2 (content l1) @ updated_children
                              @ drop end2 (content l1)\<rparr>,
                        print (CHECK @ '' Added '' @ filename @ '' to group'') w1)
            | Inr None \<Rightarrow>
                Inr (l1, print (CROSS @ '' Could not find group '' @ group_uuid
                                  @ '' for '' @ filename) w1)))"

fun add_files_loop ::
  "(nat \<Rightarrow> 128 word) \<Rightarrow> re_library \<Rightarrow> locals \<times> world
     \<Rightarrow> (string \<times> string \<times> string) list \<Rightarrow> error + locals \<times> world" where
  "add_files_loop rnd re_lib st [] = Inr st"
| "add_files_loop rnd re_lib st (f # fs) =
     (case add_file rnd re_lib st f of
        Inl e \<Rightarrow> Inl e
      | Inr st' \<Rightarrow> add_files_loop rnd re_lib st' fs)"

text \<open>
  The two loops that splice declarations after a section header (lines 68 to 70 and 77
  to 79) are the same loop over different lists.
\<close>

fun insert_entries :: "string \<Rightarrow> nat \<Rightarrow> (string \<times> string \<times> string) list \<Rightarrow> string" where
  "insert_entries text insert_pos [] = text"
| "insert_entries text insert_pos ((uuid, name, ref) # rest) =
     insert_entries (take insert_pos text @ NL @ ref @ drop insert_pos text)
       (insert_pos + length (NL @ ref)) rest"

fun new_files_str :: "string \<Rightarrow> (string \<times> string) list \<Rightarrow> string" where
  "new_files_str acc [] = acc"
| "new_files_str acc ((uuid, name) # rest) =
     new_files_str (acc @ sources_entry_text uuid name) rest"

text \<open>Lines 64 to 71: the PBXFileReference section.\<close>

definition add_file_references :: "locals \<times> world \<Rightarrow> locals \<times> world" where
  "add_file_references st =
     (case st of (l, w) \<Rightarrow>
      (case re_search file_ref_section_pattern (content l) of
        Some pbx_file_ref_section \<Rightarrow>
          (l\<lparr>content :=
               insert_entries (content l) (m_end0 pbx_file_ref_section) (file_references l)\<rparr>,
           print (CHECK @ '' Added '' @ str_nat (length (file_references l))
                    @ '' file references'') w)
      | None \<Rightarrow> (l, w)))"

text \<open>Lines 73 to 80: the PBXBuildFile section.\<close>

definition add_build_files :: "locals \<times> world \<Rightarrow> locals \<times> world" where
  "add_build_files st =
     (case st of (l, w) \<Rightarrow>
      (case re_search build_file_section_pattern (content l) of
        Some pbx_build_file_section \<Rightarrow>
          (l\<lparr>content :=
               insert_entries (content l) (m_end0 pbx_build_file_section)
                 (build_file_entries l)\<rparr>,
           print (CHECK @ '' Added '' @ str_nat (length (build_file_entries l))
                    @ '' build file entries'') w)
      | None \<Rightarrow> (l, w)))"

text \<open>Lines 82 to 95: the Sources build phase.\<close>

definition add_sources_phase :: "locals \<times> world \<Rightarrow> locals \<times> world" where
  "add_sources_phase st =
     (case st of (l, w) \<Rightarrow>
      (case re_search sources_phase_pattern (content l) of
        Some sources_match \<Rightarrow>
          let existing_files = m_group sources_match 2;
              updated_files =
                existing_files @ new_files_str [] (sources_build_phase_entries l)
          in (l\<lparr>content :=
                  take (m_start sources_match 2) (content l) @ updated_files
                    @ drop (m_end sources_match 2) (content l)\<rparr>,
              print (CHECK @ '' Added '' @ str_nat (length (sources_build_phase_entries l))
                       @ '' files to Sources build phase'') w)
      | None \<Rightarrow> (l, print (CROSS @ '' Could not find Sources build phase'') w)))"

text \<open>
  \<^verbatim>\<open>add_files_to_xcode_project\<close>.  The third parameter is never read by the source.
\<close>

definition edit_manifest ::
  "(nat \<Rightarrow> 128 word) \<Rightarrow> re_library \<Rightarrow> world \<Rightarrow> string
     \<Rightarrow> (string \<times> string \<times> string) list \<Rightarrow> error + locals \<times> world" where
  "edit_manifest rnd re_lib w text files_to_add =
     (case add_files_loop rnd re_lib
             (\<lparr>content = text, file_references = [], build_file_entries = [],
               sources_build_phase_entries = []\<rparr>, w) files_to_add of
        Inl e \<Rightarrow> Inl e
      | Inr st \<Rightarrow> Inr (add_sources_phase (add_build_files (add_file_references st))))"

definition add_files_to_xcode_project ::
  "(nat \<Rightarrow> 128 word) \<Rightarrow> re_library \<Rightarrow> world \<Rightarrow> string
     \<Rightarrow> (string \<times> string \<times> string) list \<Rightarrow> (string \<rightharpoonup> string)
     \<Rightarrow> error + bool \<times> world" where
  "add_files_to_xcode_project rnd re_lib w project_path files_to_add group_name_to_uuid =
     (case files w project_path of
        None \<Rightarrow> Inl FileNotFoundError
      | Some text \<Rightarrow>
          (case re_search main_sources_pattern text of
             None \<Rightarrow> Inr (False, print ''ERROR: Could not find main PetSafety group'' w)
           | Some main_sources_match \<Rightarrow>
               (case edit_manifest rnd re_lib w text files_to_add of
                  Inl e \<Rightarrow> Inl e
                | Inr (l, w') \<Rightarrow> Inr (True, write_file project_path (content l) w'))))"

section \<open>The group locator and the entry point\<close>

definition find_group_uuid :: "string \<Rightarrow> string \<Rightarrow> string option" where
  "find_group_uuid text group_name =
     (case re_search (find_pattern group_name) text of
        Some m \<Rightarrow> Some (m_group m 1)
      | None \<Rightarrow> None)"

text \<open>An f-string renders \<^verbatim>\<open>None\<close> as the word; \<^verbatim>\<open>all\<close> tests truthiness.\<close>

definition fmt :: "string option \<Rightarrow> string" where
  "fmt v = (case v of None \<Rightarrow> ''None'' | Some s \<Rightarrow> s)"

definition truthy :: "string option \<Rightarrow> bool" where
  "truthy v = (case v of None \<Rightarrow> False | Some s \<Rightarrow> s \<noteq> [])"

definition project_file :: string where
  "project_file = ''PetSafety.xcodeproj/project.pbxproj''"

definition files_to_add_of :: "string \<Rightarrow> string \<Rightarrow> (string \<times> string \<times> string) list" where
  "files_to_add_of services_uuid components_uuid =
     [(''NetworkMonitor.swift'', ''Services/NetworkMonitor.swift'', services_uuid),
      (''OfflineDataManager.swift'', ''Services/OfflineDataManager.swift'', services_uuid),
      (''SyncService.swift'', ''Services/SyncService.swift'', services_uuid),
      (''OfflineIndicator.swift'', ''Views/Components/OfflineIndicator.swift'',
       components_uuid)]"

definition main :: "(nat \<Rightarrow> 128 word) \<Rightarrow> re_library \<Rightarrow> world \<Rightarrow> error + world" where
  "main rnd re_lib w =
     (case files w project_file of
        None \<Rightarrow> Inl FileNotFoundError
      | Some text \<Rightarrow>
          let services_uuid = find_group_uuid text ''Services'';
              views_uuid = find_group_uuid text ''Views'';
              components_uuid = find_group_uuid text ''Components'';
              models_uuid = find_group_uuid text ''Models'';
              w1 = print [] (print (''  Models: '' @ fmt models_uuid)
                    (print (''  Components: '' @ fmt components_uuid)
                    (print (''  Views: '' @ fmt views_uuid)
                    (print (''  Services: '' @ fmt services_uuid)
                    (print ''Found group UUIDs:'' w)))))
          in if \<not> list_all truthy [services_uuid, views_uuid, components_uuid, models_uuid]
             then Inr (print ''ERROR: Could not find all required group UUIDs'' w1)
             else
               (case add_files_to_xcode_project rnd re_lib
                       (print ''Adding files to Xcode project...'' w1) project_file
                       (files_to_add_of (fmt services_uuid) (fmt components_uuid))
                       Map.empty of
                  Inl e \<Rightarrow> Inl e
                | Inr (True, w2) \<Rightarrow>
                    Inr (print (''      or you can open Xcode and use File > Add Files to add it.'')
                        (print (NL @ ''NOTE: The Core Data model (PetSafety.xcdatamodeld) needs to be added manually'')
                        (print (NL @ CHECK_BOX @ '' Successfully added all files to Xcode project!'') w2)))
                | Inr (False, w2) \<Rightarrow>
                    Inr (print (NL @ CROSS_MARK @ '' Failed to add files to project'') w2)))"

section \<open>Specification-level notions\<close>

text \<open>What an item of a pattern may consume.\<close>

fun conforms :: "item \<Rightarrow> string \<Rightarrow> bool" where
  "conforms (Lit l) x = (x = l)"
| "conforms AnyLazy x = True"
| "conforms AnyGreedy x = True"
| "conforms AnyChar x = (length x = 1)"
| "conforms (UpperHex n) x = (length x = n \<and> list_all upper_hex x)"
| "conforms (Open k) x = (x = [])"
| "conforms (Close k) x = (x = [])"

text \<open>
  Two readings of ``an identifier followed by a comment with the group name'', both at
  position \<open>i\<close> of the text, where an identifier is 24 characters of \<^verbatim>\<open>[A-F0-9]\<close>.
  \<open>occurs_at\<close>: the comment consists of exactly the name, \<^verbatim>\<open> /* name */\<close>.
  \<open>occurs_containing\<close>: the comment \<^verbatim>\<open> /* ... */\<close> that follows the identifier has
  the name somewhere in its body.
\<close>

definition occurs_at :: "string \<Rightarrow> string \<Rightarrow> nat \<Rightarrow> bool" where
  "occurs_at text group_name i =
     (let s = drop i text
      in 24 \<le> length s \<and> list_all upper_hex (take 24 s)
         \<and> prefix ('' /* '' @ group_name @ '' */'') (drop 24 s))"

text \<open>The body of a comment: the text before the first \<^verbatim>\<open>*/\<close>.\<close>

fun comment_body :: "string \<Rightarrow> string option" where
  "comment_body [] = None"
| "comment_body (c # cs) =
     (if prefix ''*/'' (c # cs) then Some [] else map_option ((#) c) (comment_body cs))"

definition occurs_containing :: "string \<Rightarrow> string \<Rightarrow> nat \<Rightarrow> bool" where
  "occurs_containing text group_name i =
     (let s = drop i text
      in 24 \<le> length s \<and> list_all upper_hex (take 24 s)
         \<and> (case literal '' /*'' (drop 24 s) of
              None \<Rightarrow> False
            | Some rest \<Rightarrow>
                (case comment_body rest of
                   None \<Rightarrow> False
                 | Some body \<Rightarrow> sublist group_name body)))"

text \<open>
  A build-file line as Xcode writes it, whose comment contains the word Services, alone
  and followed by the line that opens the Services group.
\<close>

definition build_file_line :: string where
  "build_file_line = ''0123456789ABCDEF01234567 /* Services in Sources */,''"

definition two_lines :: string where
  "two_lines = build_file_line @ NL @ ''5A1B2C3D4E5F60718293A4B5 /* Services */ = {''"

section \<open>Concrete inputs\<close>

text \<open>
  A fixed sequence of random draws, a library parameter for runs whose group identifiers
  are plain (it is never consulted then), the world that holds one manifest at the path
  of the project file and nothing else, and what a run of the editor leaves behind:
  its result, the manifest on disk, the writes, the lines printed and the number of draws.
\<close>

definition rnd0 :: "nat \<Rightarrow> 128 word" where
  "rnd0 i = (of_nat i + 1) * 0x11111111111111111111111111111111"

definition no_re_lib :: re_library where
  "no_re_lib pattern text = Inl ReError"

definition world_of :: "string \<Rightarrow> world" where
  "world_of text =
     \<lparr>files = [project_file \<mapsto> text], writes = [], stdout = [], urandom_calls = 0\<rparr>"

definition outcome ::
  "error + bool \<times> world
     \<Rightarrow> (bool \<times> string option \<times> (string \<times> string) list \<times> string list \<times> nat) option" where
  "outcome r =
     (case r of
        Inl e \<Rightarrow> None
      | Inr (ok, w) \<Rightarrow> Some (ok, files w project_file, writes w, stdout w, urandom_calls w))"

section \<open>Properties of the matcher\<close>

lemma literal_Some: "literal l s = Some rest \<longleftrightarrow> s = l @ rest"
  by (induction l s rule: literal.induct) auto

lemma literal_None: "literal l s = None \<longleftrightarrow> \<not> prefix l s"
  by (induction l s rule: literal.induct) auto

lemma upper_hex_run_Some:
  "upper_hex_run n s = Some (x, rest) \<longleftrightarrow> s = x @ rest \<and> length x = n \<and> list_all upper_hex x"
proof (induction n s arbitrary: x rule: upper_hex_run.induct)
  case (1 s)
  then show ?case by auto
next
  case (2 n)
  then show ?case by auto
next
  case (3 n c cs)
  then show ?case
    by (cases x) (auto split: if_splits)
qed

lemma consume_conforms:
  "list_all2 conforms (AnyLazy # ps) r \<Longrightarrow> list_all2 conforms (AnyLazy # ps) (consume c r)"
  "list_all2 conforms (AnyGreedy # ps) r \<Longrightarrow> list_all2 conforms (AnyGreedy # ps) (consume c r)"
  by (cases r; simp)+

lemma consume_concat:
  "r \<noteq> [] \<Longrightarrow> concat (consume c r) = c # concat r"
  by (cases r) auto

lemma rmatch_sound:
  "rmatch ps s = Some r \<Longrightarrow> list_all2 conforms ps r \<and> (\<exists>rest. s = concat r @ rest)"
proof (induction ps s arbitrary: r rule: rmatch.induct)
  case (1 s)
  then show ?case by simp
next
  case (2 l ps s)
  then show ?case by (auto split: option.splits simp: literal_Some)
next
  case (3 n ps s)
  then show ?case by (auto split: option.splits simp: upper_hex_run_Some)
next
  case (4 k ps s)
  then show ?case by auto
next
  case (5 k ps s)
  then show ?case by auto
next
  case (6 ps s)
  show ?case
  proof (cases "rmatch ps s")
    case (Some r0)
    with 6 show ?thesis by auto
  next
    case None
    with 6 obtain c cs r1 where s: "s = c # cs" and r1: "rmatch (AnyLazy # ps) cs = Some r1"
      and r: "r = consume c r1"
      by (auto split: list.splits)
    from 6(2)[OF None s r1] have a: "list_all2 conforms (AnyLazy # ps) r1"
      and b: "\<exists>rest. cs = concat r1 @ rest" by auto
    from a have "r1 \<noteq> []" by auto
    with a b s r show ?thesis by (auto simp: consume_conforms consume_concat)
  qed
next
  case (7 ps)
  then show ?case by auto
next
  case (8 ps c cs)
  show ?case
  proof (cases "rmatch (AnyGreedy # ps) cs")
    case None
    with 8 show ?thesis by auto
  next
    case (Some r1)
    with 8 have r: "r = consume c r1" by simp
    from 8(1)[OF Some] have a: "list_all2 conforms (AnyGreedy # ps) r1"
      and b: "\<exists>rest. cs = concat r1 @ rest" by auto
    from a have "r1 \<noteq> []" by auto
    with a b r show ?thesis by (auto simp: consume_conforms consume_concat)
  qed
next
  case (9 ps)
  then show ?case by simp
next
  case (10 ps c cs)
  then show ?case by auto
qed

lemma search_from_sound:
  "search_from ps n s = Some (p, r) \<Longrightarrow>
     \<exists>pre. n + length pre = p \<and> prefix pre s \<and> rmatch ps (drop (length pre) s) = Some r
       \<and> (\<forall>k < length pre. rmatch ps (drop k s) = None)"
proof (induction ps n s rule: search_from.induct)
  case (1 ps n s)
  show ?case
  proof (cases "rmatch ps s")
    case (Some r0)
    with 1(2) have "p = n" "r = r0" by (auto simp: search_from.simps)
    with Some show ?thesis by (intro exI[of _ "[]"]) auto
  next
    case None
    with 1(2) obtain c cs where s: "s = c # cs" and sf: "search_from ps (Suc n) cs = Some (p, r)"
      by (auto simp: search_from.simps[of ps n s] split: list.splits)
    from 1(1)[OF None s sf] obtain pre where pre: "Suc n + length pre = p" "prefix pre cs"
      "rmatch ps (drop (length pre) cs) = Some r" "\<forall>k < length pre. rmatch ps (drop k cs) = None"
      by auto
    have "\<forall>k < length (c # pre). rmatch ps (drop k s) = None"
    proof (intro allI impI)
      fix k assume "k < length (c # pre)"
      then show "rmatch ps (drop k s) = None"
        using None pre(4) s by (cases k) auto
    qed
    with pre s show ?thesis by (intro exI[of _ "c # pre"]) auto
  qed
qed

lemma search_from_None:
  "search_from ps n s = None \<Longrightarrow> k \<le> length s \<Longrightarrow> rmatch ps (drop k s) = None"
proof (induction ps n s arbitrary: k rule: search_from.induct)
  case (1 ps n s)
  from 1(2) have None: "rmatch ps s = None"
    by (auto simp: search_from.simps[of ps n s] split: option.splits)
  show ?case
  proof (cases k)
    case 0
    with None show ?thesis by simp
  next
    case (Suc j)
    with 1(3) obtain c cs where s: "s = c # cs" by (cases s) auto
    with 1(2) None have "search_from ps (Suc n) cs = None"
      by (auto simp: search_from.simps[of ps n "c # cs"])
    from 1(1)[OF None s this, of j] Suc s 1(3) show ?thesis by auto
  qed
qed

lemma re_search_Some:
  assumes "re_search ps s = Some m"
  shows "\<exists>pre rest. s = pre @ concat (m_parts m) @ rest \<and> m_pos m = length pre
           \<and> m_re m = ps \<and> m_string m = s \<and> list_all2 conforms ps (m_parts m)"
proof -
  from assms obtain p r where sf: "search_from ps 0 s = Some (p, r)"
    and m: "m = \<lparr>m_string = s, m_re = ps, m_pos = p, m_parts = r\<rparr>"
    by (auto simp: re_search_def)
  from search_from_sound[OF sf] obtain pre where pre: "length pre = p" "prefix pre s"
    "rmatch ps (drop (length pre) s) = Some r" by auto
  from rmatch_sound[OF pre(3)] obtain rest where r: "list_all2 conforms ps r"
    "drop (length pre) s = concat r @ rest" by auto
  from pre(2) have "s = pre @ drop (length pre) s"
    by (auto simp: prefix_def)
  with r pre m show ?thesis by (intro exI[of _ pre] exI[of _ rest]) auto
qed

lemma slice_mid: "slice (x @ g @ y) (length x) (length x + length g) = g"
  by (simp add: slice_def)

lemma splice_mid:
  "take (length x) (x @ g @ y) @ u @ drop (length x + length g) (x @ g @ y) = x @ u @ y"
  by simp

lemma offset_of_append:
  "length ps = length xs \<Longrightarrow> a \<notin> set ps \<Longrightarrow>
     offset_of a (ps @ qs) (xs @ ys) = length (concat xs) + offset_of a qs ys"
  by (induction ps xs rule: list_induct2) auto

lemma id_items_conforms:
  "list_all2 conforms (id_items gid) ids \<Longrightarrow> length (concat ids) = length gid"
proof (induction gid arbitrary: ids)
  case Nil
  then show ?case by (simp add: id_items_def)
next
  case (Cons c gid)
  from Cons.prems obtain x xs where ids: "ids = x # xs" and x: "length x = 1"
    and xs: "list_all2 conforms (id_items gid) xs"
    by (auto simp: id_items_def list_all2_Cons1 split: if_splits)
  from Cons.IH[OF xs] ids x show ?case by simp
qed

lemma id_items_no_group: "Open k \<notin> set (id_items gid)" "Close k \<notin> set (id_items gid)"
  by (auto simp: id_items_def)

lemma group_pattern_match:
  assumes "re_search (group_pattern gid) s = Some m"
  shows "\<exists>pre gm a b g c post.
           s = (pre @ gm @ '' /* '' @ a @ '' */ = {'' @ b @ ''children = ('') @ g
                 @ ('');'' @ c @ ''isa = PBXGroup;'' @ post)
         \<and> length gm = length gid
         \<and> m_start m 2 = length (pre @ gm @ '' /* '' @ a @ '' */ = {'' @ b @ ''children = ('')
         \<and> m_end m 2 = m_start m 2 + length g \<and> m_group m 2 = g"
proof -
  define tl_pattern where "tl_pattern =
     [Lit '' /* '', AnyGreedy, Lit '' */ = {'', AnyLazy,
      Lit ''children = ('', Close 1,
      Open 2, AnyLazy, Close 2,
      Open 3, Lit '');'', AnyLazy, Lit ''isa = PBXGroup;'', Close 3]"
  have pat: "group_pattern gid = Open 1 # id_items gid @ tl_pattern"
    by (simp add: group_pattern_def tl_pattern_def)
  from re_search_Some[OF assms] obtain pre rest where
    s: "s = pre @ concat (m_parts m) @ rest" and p: "m_pos m = length pre"
    and re: "m_re m = group_pattern gid" and str: "m_string m = s"
    and c: "list_all2 conforms (group_pattern gid) (m_parts m)" by blast
  from c obtain ids tl_parts where parts0: "m_parts m = [] # ids @ tl_parts"
    and ids: "list_all2 conforms (id_items gid) ids"
    and tlp: "list_all2 conforms tl_pattern tl_parts"
    unfolding pat by (auto simp: list_all2_Cons1 list_all2_append1)
  from tlp obtain a b g c where
    tl_parts: "tl_parts = ['' /* '', a, '' */ = {'', b, ''children = ('', [], [], g, [],
                        [], '');'', c, ''isa = PBXGroup;'', []]"
    by (auto simp: tl_pattern_def list_all2_Cons1)
  define gm where "gm = concat ids"
  have gm: "length gm = length gid"
    unfolding gm_def using ids by (rule id_items_conforms)
  have len: "length (id_items gid) = length ids"
    using ids by (rule list_all2_lengthD)
  define X where "X = pre @ gm @ '' /* '' @ a @ '' */ = {'' @ b @ ''children = (''"
  define Y where "Y = '');'' @ c @ ''isa = PBXGroup;'' @ rest"
  have st: "m_start m 2 = length X"
    unfolding m_start_def p re pat parts0
    by (simp add: offset_of_append[OF len id_items_no_group(1)] tl_pattern_def tl_parts
          X_def gm_def)
  have en: "m_end m 2 = length X + length g"
    unfolding m_end_def p re pat parts0
    by (simp add: offset_of_append[OF len id_items_no_group(2)] tl_pattern_def tl_parts
          X_def gm_def)
  have s': "s = X @ g @ Y"
    using s by (simp add: parts0 tl_parts X_def Y_def gm_def)
  have "m_group m 2 = g"
    unfolding m_group_def str en st s' by (rule slice_mid)
  with s' st en gm show ?thesis unfolding X_def Y_def by (metis (no_types))
qed

lemma sources_search:
  assumes "re_search sources_phase_pattern s = Some m"
  shows "\<exists>pre a g c post.
           s = (pre @ ''/* Sources */ = {'' @ a @ ''files = ('') @ g
                 @ ('');'' @ c @ ''isa = PBXSourcesBuildPhase;'' @ post)
         \<and> m_start m 2 = length (pre @ ''/* Sources */ = {'' @ a @ ''files = ('')
         \<and> m_end m 2 = m_start m 2 + length g \<and> m_group m 2 = g"
proof -
  from re_search_Some[OF assms] obtain pre rest where
    s: "s = pre @ concat (m_parts m) @ rest" and p: "m_pos m = length pre"
    and re: "m_re m = sources_phase_pattern" and str: "m_string m = s"
    and c: "list_all2 conforms sources_phase_pattern (m_parts m)" by blast
  from c obtain a g c where
    parts: "m_parts m = [[], ''/* Sources */ = {'', a, ''files = ('', [], [], g, [],
                        [], '');'', c, ''isa = PBXSourcesBuildPhase;'', []]"
    by (auto simp: sources_phase_pattern_def list_all2_Cons1)
  define X where "X = pre @ ''/* Sources */ = {'' @ a @ ''files = (''"
  define Y where "Y = '');'' @ c @ ''isa = PBXSourcesBuildPhase;'' @ rest"
  have st: "m_start m 2 = length X"
    by (simp add: m_start_def p re parts sources_phase_pattern_def X_def)
  have en: "m_end m 2 = length X + length g"
    by (simp add: m_end_def p re parts sources_phase_pattern_def X_def)
  have s': "s = X @ g @ Y"
    using s by (simp add: parts X_def Y_def)
  have "m_group m 2 = g"
    unfolding m_group_def str en st s' by (rule slice_mid)
  with s' st en show ?thesis unfolding X_def Y_def by (metis (no_types))
qed

lemma header_search:
  assumes "re_search [Lit h] s = Some m"
  shows "\<exists>pre post. s = pre @ h @ post \<and> m_end0 m = length (pre @ h)"
proof -
  from re_search_Some[OF assms] obtain pre rest where
    s: "s = pre @ concat (m_parts m) @ rest" and p: "m_pos m = length pre"
    and c: "list_all2 conforms [Lit h] (m_parts m)" by blast
  from c have "m_parts m = [h]" by (auto simp: list_all2_Cons1)
  with s p show ?thesis by (auto simp: m_end0_def)
qed

lemma insert_entries_eq:
  "p \<le> length t \<Longrightarrow>
     insert_entries t p es
       = take p t @ concat (map (\<lambda>(uuid, name, ref). NL @ ref) es) @ drop p t"
proof (induction es arbitrary: t p)
  case Nil
  then show ?case by simp
next
  case (Cons e es)
  obtain uuid name ref where e: "e = (uuid, name, ref)" by (cases e) auto
  from Cons.prems show ?case
    by (simp add: e Cons.IH)
qed

lemma new_files_str_eq:
  "new_files_str acc es = acc @ concat (map (\<lambda>(uuid, name). sources_entry_text uuid name) es)"
  by (induction acc es rule: new_files_str.induct) auto

section \<open>The identifier generator\<close>

lemma hex_digits_set: "set (hex_digits n) \<subseteq> set ''0123456789abcdef''"
proof (induction n rule: hex_digits.induct)
  case (1 n)
  have nth: "k < 16 \<Longrightarrow> ''0123456789abcdef'' ! k \<in> set ''0123456789abcdef''" for k
    by (rule nth_mem) simp
  show ?case
  proof (cases "n < 16")
    case True
    then show ?thesis using nth[of n] by (subst hex_digits.simps) simp
  next
    case False
    have "n mod 16 < 16" by simp
    from nth[OF this] 1[OF False] False show ?thesis
      by (subst hex_digits.simps) simp
  qed
qed

lemma hex_digits_length: "n < 16 ^ k \<Longrightarrow> 0 < k \<Longrightarrow> length (hex_digits n) \<le> k"
proof (induction n arbitrary: k rule: hex_digits.induct)
  case (1 n)
  show ?case
  proof (cases "n < 16")
    case True
    with 1(3) show ?thesis by (subst hex_digits.simps) simp
  next
    case False
    from 1(3) obtain j where k: "k = Suc j" by (cases k) auto
    from False 1(2) k have "0 < j" by (cases j) auto
    moreover from 1(2) k have "n div 16 < 16 ^ j"
      by (simp add: less_mult_imp_div_less mult.commute)
    ultimately have "length (hex_digits (n div 16)) \<le> j"
      using 1(1)[OF False] by blast
    with False k show ?thesis by (subst hex_digits.simps) simp
  qed
qed

lemma format_032x_length: "n < 2 ^ 128 \<Longrightarrow> length (format_032x n) = 32"
proof -
  assume "n < 2 ^ 128"
  then have "n < 16 ^ 32" by simp
  then have "length (hex_digits n) \<le> 32" by (rule hex_digits_length) simp
  then show ?thesis by (simp add: format_032x_def)
qed

lemma format_032x_set: "set (format_032x n) \<subseteq> set ''0123456789abcdef''"
proof -
  have "set (replicate k CHR ''0'') \<subseteq> set ''0123456789abcdef''" for k
    by (cases k) auto
  with hex_digits_set[of n] show ?thesis
    unfolding format_032x_def set_append by blast
qed

lemma upper_char_hex_digits:
  "list_all (\<lambda>c. upper_hex (upper_char c)) ''0123456789abcdef''"
  by (simp add: upper_char_def upper_hex_def)

lemma upper_char_hex: "c \<in> set ''0123456789abcdef'' \<Longrightarrow> upper_hex (upper_char c)"
  using upper_char_hex_digits unfolding list_all_iff by blast

lemma uuid_hex_length: "length (uuid_hex u) = 32"
proof -
  have "unat u < 2 ^ LENGTH(128)" by (rule unsigned_less)
  then show ?thesis unfolding uuid_hex_def by (intro format_032x_length) simp
qed

lemma generate_uuid_length: "length (generate_uuid r) = 24"
  by (simp add: generate_uuid_def upper_def uuid_hex_length)

lemma generate_uuid_upper_hex: "list_all upper_hex (generate_uuid r)"
proof -
  have "set (take 24 (uuid_hex (uuid4 r))) \<subseteq> set ''0123456789abcdef''"
    using format_032x_set set_take_subset unfolding uuid_hex_def by fast
  then show ?thesis
    unfolding generate_uuid_def upper_def list_all_iff using upper_char_hex by auto
qed

text \<open>
  The 32 digits of \<^verbatim>\<open>'%032x'\<close> are the 32 nibbles of the number, the most significant
  first.  In this form the hexadecimal text of a concrete draw is computed on integers.
\<close>

lemma hex_digits_padded:
  "0 < k \<Longrightarrow> n < 16 ^ k \<Longrightarrow>
     replicate (k - length (hex_digits n)) CHR ''0'' @ hex_digits n
       = map (\<lambda>j. ''0123456789abcdef'' ! (n div 16 ^ (k - 1 - j) mod 16)) [0..<k]"
proof (induction k arbitrary: n)
  case 0
  then show ?case by simp
next
  case (Suc k)
  show ?case
  proof (cases "n < 16")
    case True
    have "map (\<lambda>j. ''0123456789abcdef'' ! (n div 16 ^ (k - j) mod 16)) [0..<k]
            = map (\<lambda>j. CHR ''0'') [0..<k]"
    proof (rule map_cong[OF refl])
      fix j assume "j \<in> set [0..<k]"
      then have "0 < k - j" by simp
      then obtain i where i: "k - j = Suc i" by (cases "k - j") auto
      have "(16::nat) ^ i \<ge> 1" by simp
      then have "n < 16 ^ (k - j)" using True unfolding i
        by (metis less_le_trans mult.right_neutral mult_le_mono2 power_Suc)
      then show "''0123456789abcdef'' ! (n div 16 ^ (k - j) mod 16) = CHR ''0''" by simp
    qed
    then show ?thesis using True
      by (subst (1 2) hex_digits.simps) (simp add: map_replicate_const)
  next
    case False
    then have k: "0 < k" using Suc.prems by (cases k) auto
    from Suc.prems have lt: "n div 16 < 16 ^ k"
      by (simp add: less_mult_imp_div_less mult.commute)
    have "map (\<lambda>j. ''0123456789abcdef'' ! (n div 16 ^ (k - j) mod 16)) [0..<k]
            = map (\<lambda>j. ''0123456789abcdef'' ! (n div 16 div 16 ^ (k - 1 - j) mod 16)) [0..<k]"
    proof (rule map_cong[OF refl])
      fix j assume "j \<in> set [0..<k]"
      then have "k - j = Suc (k - 1 - j)" by simp
      then have "(16::nat) ^ (k - j) = 16 * 16 ^ (k - 1 - j)" by simp
      then show "''0123456789abcdef'' ! (n div 16 ^ (k - j) mod 16)
                  = ''0123456789abcdef'' ! (n div 16 div 16 ^ (k - 1 - j) mod 16)"
        by (simp add: div_mult2_eq)
    qed
    moreover have "length (hex_digits n) = Suc (length (hex_digits (n div 16)))"
      using False by (subst hex_digits.simps) simp
    moreover have "hex_digits n = hex_digits (n div 16) @ [''0123456789abcdef'' ! (n mod 16)]"
      using False by (subst hex_digits.simps) simp
    ultimately show ?thesis
      using Suc.IH[OF k lt] by simp
  qed
qed

lemma uuid_hex_code [code]:
  "uuid_hex u = map (\<lambda>j. ''0123456789abcdef'' ! nat (uint u div 16 ^ (31 - j) mod 16)) [0..<32]"
proof -
  have "unat u < 2 ^ LENGTH(128)" by (rule unsigned_less)
  then have lt: "unat u < 16 ^ 32" by simp
  have eq: "nat (uint u div 16 ^ (31 - j) mod 16) = unat u div 16 ^ (31 - j) mod 16" for j
  proof -
    have "int (unat u div 16 ^ (31 - j) mod 16) = uint u div 16 ^ (31 - j) mod 16"
      by (simp add: zdiv_int zmod_int)
    then show ?thesis by (metis nat_int)
  qed
  show ?thesis
    unfolding uuid_hex_def format_032x_def eq
    using hex_digits_padded[of 32 "unat u", OF _ lt] by simp
qed

text \<open>
  Claim C8.  Whatever the 16 random bytes drawn, \<open>generate_uuid\<close> returns exactly 24
  characters, each an uppercase hexadecimal digit; the function is total, so no call fails.
\<close>

theorem generate_uuid_format:
  "length (generate_uuid r) = 24 \<and> list_all upper_hex (generate_uuid r)"
  by (simp add: generate_uuid_length generate_uuid_upper_hex)

section \<open>The group locator\<close>

lemma re_search_Some_least:
  assumes "re_search ps s = Some m"
  shows "rmatch ps (drop (m_pos m) s) = Some (m_parts m)
       \<and> (\<forall>k < m_pos m. rmatch ps (drop k s) = None) \<and> m_pos m \<le> length s"
proof -
  from assms obtain p r where sf: "search_from ps 0 s = Some (p, r)"
    and m: "m = \<lparr>m_string = s, m_re = ps, m_pos = p, m_parts = r\<rparr>"
    by (auto simp: re_search_def)
  from search_from_sound[OF sf] obtain pre where pre: "length pre = p" "prefix pre s"
    "rmatch ps (drop (length pre) s) = Some r" "\<forall>k < length pre. rmatch ps (drop k s) = None"
    by auto
  from pre(2) have "length pre \<le> length s" by (rule prefix_length_le)
  with pre m show ?thesis by auto
qed

lemma re_search_None:
  assumes "re_search ps s = None"
  shows "rmatch ps (drop k s) = None"
proof (cases "k \<le> length s")
  case True
  from assms have "search_from ps 0 s = None" by (simp add: re_search_def)
  from search_from_None[OF this True] show ?thesis .
next
  case False
  from assms have "search_from ps 0 s = None" by (simp add: re_search_def)
  from search_from_None[OF this, of "length s"] False show ?thesis by simp
qed

lemma find_rmatch:
  "rmatch (find_pattern name) s =
     (if 24 \<le> length s \<and> list_all upper_hex (take 24 s)
          \<and> prefix ('' /* '' @ name @ '' */'') (drop 24 s)
      then Some [[], take 24 s, [], '' /* '' @ name @ '' */''] else None)"
proof -
  define L where "L = '' /* '' @ name @ '' */''"
  have pat: "find_pattern name = [Open 1, UpperHex 24, Close 1, Lit L]"
    by (simp add: find_pattern_def L_def)
  show ?thesis
  proof (cases "upper_hex_run 24 s")
    case None
    have "\<not> (24 \<le> length s \<and> list_all upper_hex (take 24 s))"
    proof
      assume a: "24 \<le> length s \<and> list_all upper_hex (take 24 s)"
      then have "upper_hex_run 24 s = Some (take 24 s, drop 24 s)"
        by (subst upper_hex_run_Some) auto
      with None show False by simp
    qed
    with None show ?thesis unfolding pat by auto
  next
    case (Some a)
    obtain x rest where a: "a = (x, rest)" by (cases a) auto
    from Some a have x: "s = x @ rest" "length x = 24" "list_all upper_hex x"
      by (auto simp: upper_hex_run_Some)
    then have tk: "take 24 s = x" "drop 24 s = rest" and len: "24 \<le> length s" by auto
    have run: "upper_hex_run 24 s = Some (x, rest)" using Some a by simp
    show ?thesis
    proof (cases "literal L rest")
      case None
      then have "\<not> prefix L rest" by (simp add: literal_None)
      with None run tk len x(2,3) show ?thesis
        unfolding pat L_def[symmetric] by simp
    next
      case (Some rest')
      then have "prefix L rest" by (auto simp: literal_Some)
      with Some run tk len x(2,3) show ?thesis
        unfolding pat L_def[symmetric] by simp
    qed
  qed
qed

text \<open>
  Claim C7, amended.  \<open>find_group_uuid\<close> returns the identifier of the first position of
  the text at which an identifier stands followed by a comment that consists of exactly
  the group name (\<^verbatim>\<open> /* name */\<close>), and \<open>None\<close> when there is no such position.  It
  is a function of the text and the name alone: it returns a value and has no access to
  the world, so the text is not modified.
\<close>

theorem find_group_uuid_first_occurrence:
  "find_group_uuid text group_name =
     (if \<exists>i. occurs_at text group_name i
      then Some (take 24 (drop (LEAST i. occurs_at text group_name i) text))
      else None)"
proof (cases "re_search (find_pattern group_name) text")
  case None
  have "\<not> occurs_at text group_name i" for i
    using re_search_None[OF None, of i]
    by (auto simp: find_rmatch occurs_at_def Let_def split: if_splits)
  with None show ?thesis by (simp add: find_group_uuid_def)
next
  case (Some m)
  from re_search_Some_least[OF Some]
  have at: "rmatch (find_pattern group_name) (drop (m_pos m) text) = Some (m_parts m)"
    and least: "\<forall>k < m_pos m. rmatch (find_pattern group_name) (drop k text) = None" by auto
  from at have occ: "occurs_at text group_name (m_pos m)"
    and parts: "m_parts m = [[], take 24 (drop (m_pos m) text), [], '' /* '' @ group_name @ '' */'']"
    by (auto simp: find_rmatch occurs_at_def Let_def split: if_splits)
  from least have "\<not> occurs_at text group_name k" if "k < m_pos m" for k
    using that by (auto simp: find_rmatch occurs_at_def Let_def split: if_splits)
  with occ have L: "(LEAST i. occurs_at text group_name i) = m_pos m"
    by (intro Least_equality) (auto simp: not_less[symmetric])
  from occ have len: "24 \<le> length (drop (m_pos m) text)"
    by (simp add: occurs_at_def Let_def)
  from Some have re: "m_re m = find_pattern group_name" "m_string m = text"
    by (auto simp: re_search_def)
  have "m_group m 1 = take 24 (drop (m_pos m) text)"
    using len by (simp add: m_group_def m_start_def m_end_def re parts find_pattern_def slice_def)
  with Some occ L show ?thesis by (auto simp: find_group_uuid_def)
qed

text \<open>
  Claim C7 as worded, with ``a comment containing that group name'', does not hold.  In
  \<open>build_file_line\<close> an identifier is followed by a comment that contains Services, yet
  nothing is found; in \<open>two_lines\<close> the first such identifier stands at position 0, yet
  the identifier returned is the one of the second line.
\<close>

theorem find_group_uuid_comment_containing:
  "occurs_containing build_file_line ''Services'' 0
   \<and> find_group_uuid build_file_line ''Services'' = None
   \<and> occurs_containing two_lines ''Services'' 0
   \<and> take 24 two_lines = ''0123456789ABCDEF01234567''
   \<and> find_group_uuid two_lines ''Services'' = Some ''5A1B2C3D4E5F60718293A4B5''"
  by code_simp

end
